theory Spec2Isabelle
  imports Main
begin

section \<open>The process supervisor of gowork\<close>

text \<open>
  The program supervises one child process. Its state is the struct \<open>ProcessManager\<close>;
  the methods \<open>Start\<close>, \<open>Stop\<close>, \<open>GetStatus\<close> and \<open>GetLogs\<close> run with the mutex
  \<open>mu\<close> held from their first statement to their return, so each call is one atomic step
  of the model and the mutex itself is not a field of the record. The goroutine
  \<open>waitForProcess\<close> is three steps: it evaluates \<open>pm.cmd\<close> and enters \<open>Wait\<close> (no lock),
  \<open>Wait\<close> returns (no lock), and it commits the status (under the lock).
  What the operating system and the library \<open>os/exec\<close> decide (whether the spawn
  succeeds, how the child ends, whether the signal is delivered) comes in as a parameter
  of the step. The goroutine that \<open>os/exec\<close> starts to copy the child's output does not
  take the mutex when it writes \<open>pm.logBuffer\<close>; a read of the log that overlaps such a
  write is a parameter of \<open>GetLogs\<close>. The \<open>log.Printf\<close> lines only write to the
  supervisor's log and are left out.
\<close>

subsection \<open>Data\<close>

datatype ProcessStatus = StatusNotStarted | StatusRunning | StatusSuccess | StatusFailed

text \<open>The string values of the Go constants (what \<open>/status\<close> sends).\<close>

fun status_string :: "ProcessStatus \<Rightarrow> string" where
  "status_string StatusNotStarted = ''not_started''"
| "status_string StatusRunning = ''running''"
| "status_string StatusSuccess = ''success''"
| "status_string StatusFailed = ''failed''"

text \<open>
  A writer a child's output stream is connected to: \<open>&pm.logBuffer\<close> or \<open>os.Stdout\<close>;
  \<open>io.MultiWriter\<close> of several is the list of them, written in order.
\<close>

datatype sink = LogBufferSink | OsStdoutSink

text \<open>How \<open>Wait\<close> saw the child end, and the error value \<open>Wait\<close> returns for it.\<close>

datatype child_end = Exited nat | Signaled nat | WaitError string

datatype wait_err = ExitError int | OtherError string

text \<open>
  An \<open>exec.Cmd\<close> object. \<open>Process\<close> is nil (\<open>None\<close>) until the command has been started,
  then the child's pid; \<open>ProcessState\<close> is nil until \<open>Wait\<close> has returned for it.
  Because \<open>Stdout\<close> and \<open>Stderr\<close> are given the same writer, which is not a file,
  \<open>cmd.Start()\<close> connects both streams of the child to one pipe and starts one goroutine
  that copies from the pipe to that writer (\<open>io.Copy\<close>); \<open>copying\<close> says that this
  goroutine has been started and has not been stopped by a failed write.
\<close>

record Cmd =
  Path :: string
  Args :: "string list"
  Stdout :: "sink list"
  Stderr :: "sink list"
  Process :: "nat option"
  ProcessState :: "child_end option"
  copying :: bool

text \<open>
  The struct \<open>ProcessManager\<close>. The field \<open>cmd\<close> is a pointer: the address of an
  \<open>exec.Cmd\<close> in the heap below, or nil.
\<close>

record ProcessManager =
  executablePath :: string
  args :: "string list"
  cmd :: "nat option"
  status :: ProcessStatus
  logBuffer :: string

text \<open>
  A \<open>waitForProcess\<close> goroutine and where it stands: created by the \<open>go\<close> statement,
  blocked in \<open>Wait\<close> on the \<open>Cmd\<close> it read from \<open>pm.cmd\<close>, back from \<open>Wait\<close> with its
  error value, finished, or stopped by a nil dereference. \<open>spawnedFor\<close> is a ghost field:
  the value \<open>pm.cmd\<close> had at the \<open>go\<close> statement. No step reads it.
\<close>

datatype reaper_pc = Spawned | Waiting nat | Returned "wait_err option" | Done | Panicked

record reaper =
  spawnedFor :: "nat option"
  pc :: reaper_pc

datatype signal = SIGTERM

text \<open>
  The whole state: the record, the heap of \<open>exec.Cmd\<close> objects (an address is an index;
  \<open>exec.Command\<close> allocates at the end), the goroutines, the signals delivered so far and
  what was forwarded to the supervisor's standard output.
\<close>

record World =
  pm :: ProcessManager
  heap :: "Cmd list"
  reapers :: "reaper list"
  signals :: "(nat \<times> signal) list"
  console :: string

definition deref :: "World \<Rightarrow> nat \<Rightarrow> Cmd option" where
  "deref w a = (if a < length (heap w) then Some (heap w ! a) else None)"

subsection \<open>The library calls\<close>

text \<open>
  \<open>exec.Command(name, arg...)\<close>: a fresh \<open>Cmd\<close>, not started, with no output writers.
\<close>

definition exec_Command :: "string \<Rightarrow> string list \<Rightarrow> Cmd" where
  "exec_Command name arg =
     \<lparr>Path = name, Args = name # arg, Stdout = [], Stderr = [],
      Process = None, ProcessState = None, copying = False\<rparr>"

text \<open>The outcome of \<open>cmd.Start()\<close>: the new child's pid, or the error.\<close>

datatype spawn_result = SpawnOk nat | SpawnErr string

text \<open>
  The error \<open>Wait\<close> returns, after the documentation of \<open>os/exec\<close>: nil when the command
  exits with status 0 and its output was copied without a problem, an \<open>*ExitError\<close>
  when it exits with another status or is killed by a signal (exit code -1), another
  error otherwise.
\<close>

fun wait_error_of :: "child_end \<Rightarrow> wait_err option" where
  "wait_error_of (Exited n) = (if n = 0 then None else Some (ExitError (int n)))"
| "wait_error_of (Signaled s) = Some (ExitError (- 1))"
| "wait_error_of (WaitError e) = Some (OtherError e)"

text \<open>
  \<open>c.Wait()\<close> at the moment it returns: an error at once when the command was never
  started or has been waited for already; otherwise it records the process state.
\<close>

definition cmd_Wait :: "Cmd \<Rightarrow> child_end \<Rightarrow> wait_err option \<times> Cmd" where
  "cmd_Wait c e =
     (if Process c = None then (Some (OtherError ''exec: not started''), c)
      else if ProcessState c \<noteq> None then (Some (OtherError ''exec: Wait was already called''), c)
      else (wait_error_of e, c\<lparr>ProcessState := Some e\<rparr>))"

text \<open>
  \<open>c.Process.Signal(sig)\<close>: fails when the process has been waited for already;
  otherwise the result of the kill system call, given as \<open>kill\<close>.
\<close>

definition os_Signal :: "Cmd \<Rightarrow> string option \<Rightarrow> string option" where
  "os_Signal c kill =
     (if ProcessState c \<noteq> None then Some ''os: process already finished'' else kill)"

subsection \<open>The methods of ProcessManager\<close>

definition NewProcessManager :: "string \<Rightarrow> string list \<Rightarrow> ProcessManager" where
  "NewProcessManager path as =
     \<lparr>executablePath = path, args = as, cmd = None,
      status = StatusNotStarted, logBuffer = []\<rparr>"

definition new_world :: "string \<Rightarrow> string list \<Rightarrow> World" where
  "new_world path as =
     \<lparr>pm = NewProcessManager path as, heap = [], reapers = [], signals = [],
      console = []\<rparr>"

definition multiWriter :: "sink list" where
  "multiWriter = [LogBufferSink, OsStdoutSink]"

text \<open>
  \<open>Start\<close>: the returned error (nil is \<open>None\<close>) and the state after the call. A
  successful \<open>cmd.Start()\<close> sets \<open>Process\<close> and starts the copying goroutine. The \<open>go\<close>
  statement adds a goroutine at \<open>Spawned\<close>.
\<close>

definition Start :: "spawn_result \<Rightarrow> World \<Rightarrow> string option \<times> World" where
  "Start sp w =
     (if status (pm w) = StatusRunning then (Some ''process is already running'', w)
      else
        let a = length (heap w);
            c = (exec_Command (executablePath (pm w)) (args (pm w)))
                  \<lparr>Stdout := multiWriter, Stderr := multiWriter\<rparr>;
            w1 = w\<lparr>pm := (pm w)\<lparr>cmd := Some a, logBuffer := []\<rparr>,
                   heap := heap w @ [c]\<rparr>
        in case sp of
             SpawnErr e \<Rightarrow>
               (Some (''failed to start process: '' @ e),
                w1\<lparr>pm := (pm w1)\<lparr>status := StatusFailed\<rparr>\<rparr>)
           | SpawnOk pid \<Rightarrow>
               (None,
                w1\<lparr>pm := (pm w1)\<lparr>status := StatusRunning\<rparr>,
                   heap := (heap w1)[a := c\<lparr>Process := Some pid, copying := True\<rparr>],
                   reapers := reapers w1 @ [\<lparr>spawnedFor = Some a, pc = Spawned\<rparr>]\<rparr>))"

definition set_pc :: "nat \<Rightarrow> reaper_pc \<Rightarrow> World \<Rightarrow> World" where
  "set_pc i p w = w\<lparr>reapers := (reapers w)[i := (reapers w ! i)\<lparr>pc := p\<rparr>]\<rparr>"

text \<open>
  \<open>waitForProcess\<close>, line by line. First \<open>pm.cmd.Wait()\<close> evaluates the shared field
  \<open>pm.cmd\<close> as it is when the goroutine runs and blocks in \<open>Wait\<close> on that \<open>Cmd\<close>.
\<close>

definition waitForProcess_read :: "nat \<Rightarrow> World \<Rightarrow> World" where
  "waitForProcess_read i w =
     (if i < length (reapers w) \<and> pc (reapers w ! i) = Spawned
      then (case cmd (pm w) of
              None \<Rightarrow> set_pc i Panicked w
            | Some a \<Rightarrow> (case deref w a of
                          None \<Rightarrow> set_pc i Panicked w
                        | Some c \<Rightarrow> set_pc i (Waiting a) w))
      else w)"

text \<open>Then \<open>Wait\<close> returns \<open>err\<close>.\<close>

definition waitForProcess_wait :: "nat \<Rightarrow> child_end \<Rightarrow> World \<Rightarrow> World" where
  "waitForProcess_wait i e w =
     (if i < length (reapers w)
      then (case pc (reapers w ! i) of
              Waiting a \<Rightarrow>
                (case deref w a of
                   None \<Rightarrow> set_pc i Panicked w
                 | Some c \<Rightarrow>
                     (let (err, c') = cmd_Wait c e
                      in set_pc i (Returned err) (w\<lparr>heap := (heap w)[a := c']\<rparr>)))
            | _ \<Rightarrow> w)
      else w)"

text \<open>The status the goroutine writes for \<open>err\<close>, branch by branch.\<close>

definition commit_status :: "wait_err option \<Rightarrow> ProcessStatus" where
  "commit_status err =
     (case err of
        Some (ExitError code) \<Rightarrow> StatusFailed
      | Some (OtherError msg) \<Rightarrow> StatusFailed
      | None \<Rightarrow> StatusSuccess)"

text \<open>Last it takes the lock and writes \<open>pm.status\<close>; nothing else is written.\<close>

definition waitForProcess_commit :: "nat \<Rightarrow> World \<Rightarrow> World" where
  "waitForProcess_commit i w =
     (if i < length (reapers w)
      then (case pc (reapers w ! i) of
              Returned err \<Rightarrow>
                set_pc i Done (w\<lparr>pm := (pm w)\<lparr>status := commit_status err\<rparr>\<rparr>)
            | _ \<Rightarrow> w)
      else w)"

text \<open>
  \<open>Stop\<close>: what the call does (returns an error value, or panics on a nil dereference)
  and the state after it.
\<close>

datatype ret = Return "string option" | Panic

definition Stop :: "string option \<Rightarrow> World \<Rightarrow> ret \<times> World" where
  "Stop kill w =
     (if status (pm w) \<noteq> StatusRunning then (Return (Some ''process is not running''), w)
      else
        case cmd (pm w) of
          None \<Rightarrow> (Panic, w)
        | Some a \<Rightarrow>
            (case deref w a of
               None \<Rightarrow> (Panic, w)
             | Some c \<Rightarrow>
                 (case Process c of
                    None \<Rightarrow> (Panic, w)
                  | Some pid \<Rightarrow>
                      (case os_Signal c kill of
                         Some e \<Rightarrow>
                           (Return (Some (''failed to send SIGTERM to process: '' @ e)), w)
                       | None \<Rightarrow>
                           (Return None, w\<lparr>signals := signals w @ [(pid, SIGTERM)]\<rparr>)))))"

definition GetStatus :: "World \<Rightarrow> ProcessStatus" where
  "GetStatus w = status (pm w)"

text \<open>
  The copying goroutine of a \<open>Cmd\<close> can write as long as the child has been started,
  \<open>Wait\<close> has not returned for it (\<open>Wait\<close> returns only when the copying is over) and no
  write has failed.
\<close>

definition can_copy :: "Cmd \<Rightarrow> bool" where
  "can_copy c \<longleftrightarrow> Process c \<noteq> None \<and> ProcessState c = None \<and> copying c"

definition copier_running :: "World \<Rightarrow> bool" where
  "copier_running w = list_ex can_copy (heap w)"

text \<open>
  \<open>GetLogs\<close> reads \<open>pm.logBuffer\<close> under \<open>pm.mu\<close>, but the copying goroutine writes the
  same buffer without taking \<open>pm.mu\<close>. A read that does not overlap a write of that
  goroutine returns the content of the buffer. A read that overlaps one is a data race
  and what it returns is not determined by the program; it is the parameter \<open>overlap\<close>
  (\<open>None\<close>: the read overlapped no write). An overlap needs a copying goroutine that can
  write.
\<close>

definition GetLogs :: "string option \<Rightarrow> World \<Rightarrow> string" where
  "GetLogs overlap w =
     (case overlap of
        None \<Rightarrow> logBuffer (pm w)
      | Some torn \<Rightarrow> if copier_running w then torn else logBuffer (pm w))"

subsection \<open>The child's output\<close>

datatype stream = StdoutStream | StderrStream

text \<open>
  One \<open>Write\<close> of \<open>bs\<close> to an \<open>io.MultiWriter\<close> of the listed writers: each writer in
  turn, stopping at the first that fails. The buffer never fails; the write to
  \<open>os.Stdout\<close> fails when \<open>out\<close> is an error (what a failed write has put on the standard
  output before failing is not recorded). The result says whether the whole write succeeded.
\<close>

fun write_sinks :: "string \<Rightarrow> string option \<Rightarrow> sink list \<Rightarrow> World \<Rightarrow> bool \<times> World" where
  "write_sinks bs out [] w = (True, w)"
| "write_sinks bs out (LogBufferSink # ss) w =
     write_sinks bs out ss (w\<lparr>pm := (pm w)\<lparr>logBuffer := logBuffer (pm w) @ bs\<rparr>\<rparr>)"
| "write_sinks bs out (OsStdoutSink # ss) w =
     (case out of
        None \<Rightarrow> write_sinks bs out ss (w\<lparr>console := console w @ bs\<rparr>)
      | Some e \<Rightarrow> (False, w))"

text \<open>
  The child of the \<open>Cmd\<close> at address \<open>a\<close> writes \<open>bs\<close> to one of its streams, and the
  copying goroutine, if it can still write, passes the bytes to the writer of the \<open>Cmd\<close>,
  whichever \<open>Cmd\<close> the field \<open>pm.cmd\<close> points to by then. \<open>out\<close> is the error of the
  write to \<open>os.Stdout\<close>, if it fails. When the write to the writer fails, \<open>io.Copy\<close>
  returns and the goroutine ends: nothing the child writes afterwards is copied.
\<close>

definition child_write :: "nat \<Rightarrow> stream \<Rightarrow> string \<Rightarrow> string option \<Rightarrow> World \<Rightarrow> World" where
  "child_write a st bs out w =
     (case deref w a of
        None \<Rightarrow> w
      | Some c \<Rightarrow>
          if can_copy c
          then (let (ok, w') = write_sinks bs out
                     (case st of StdoutStream \<Rightarrow> Stdout c | StderrStream \<Rightarrow> Stderr c) w
                in if ok then w' else w'\<lparr>heap := (heap w')[a := c\<lparr>copying := False\<rparr>]\<rparr>)
          else w)"

subsection \<open>Interleavings\<close>

text \<open>
  One step of the system: a call of a method by the control interface, a step of a
  \<open>waitForProcess\<close> goroutine, or a write of a child. A step that is not possible in the
  state (a goroutine that is not at that line, a child that is not running) leaves the
  state as it is.
\<close>

datatype event =
    CallStart spawn_result
  | CallStop "string option"
  | CallGetStatus
  | CallGetLogs
  | ReaperRead nat
  | ChildWrite nat stream string "string option"
  | WaitReturns nat child_end
  | ReaperCommit nat

fun step :: "World \<Rightarrow> event \<Rightarrow> World" where
  "step w (CallStart sp) = snd (Start sp w)"
| "step w (CallStop kill) = snd (Stop kill w)"
| "step w CallGetStatus = w"
| "step w CallGetLogs = w"
| "step w (ReaperRead i) = waitForProcess_read i w"
| "step w (ChildWrite a st bs out) = child_write a st bs out w"
| "step w (WaitReturns i e) = waitForProcess_wait i e w"
| "step w (ReaperCommit i) = waitForProcess_commit i w"

definition run_events :: "event list \<Rightarrow> World \<Rightarrow> World" where
  "run_events es w = foldl step w es"

subsection \<open>The program\<close>

text \<open>
  \<open>main\<close> up to the call of \<open>http.ListenAndServe\<close>. The flags are parsed already: \<open>port\<close>
  and the remaining arguments. \<open>stat\<close> is the file system as \<open>os.Stat\<close> sees it,
  \<open>sp\<close> the outcome of the first spawn, \<open>listen\<close> the error of \<open>ListenAndServe\<close> if it
  cannot open the port. The result is what \<open>main\<close> did, in order, and the state of the
  supervisor when \<open>Start\<close> has returned and \<open>main\<close> goes on to \<open>ListenAndServe\<close> (\<open>None\<close>
  when the program has exited). The goroutine that \<open>Start\<close> created runs beside the rest
  of \<open>main\<close> and beside the server: its steps and those of the child, before or after
  the port is open, are events on that state.

  The results of \<open>os.Stat\<close>: the file is there; the error for which \<open>os.IsNotExist\<close> is true
  (ENOENT, no such file or directory); the error ENOTDIR (a component of the path is not
  a directory, so the path names no file, but \<open>os.IsNotExist\<close> is false); another error.
\<close>

datatype stat_result = StatOk | StatNotExist | StatNotDir | StatOtherError


datatype action =
    Fatal string
  | CreateManager string "string list"
  | InitialStart "string option"
  | ListenAndServe string

definition main ::
  "string \<Rightarrow> string list \<Rightarrow> (string \<Rightarrow> stat_result) \<Rightarrow> spawn_result \<Rightarrow> string option
     \<Rightarrow> action list \<times> World option" where
  "main port as stat sp listen =
     (case as of
        [] \<Rightarrow> ([Fatal ''Usage: gowork -port <port> <executable_path> [arg1] [arg2] ...''], None)
      | exePath # exeArgs \<Rightarrow>
          if stat exePath = StatNotExist
          then ([Fatal (''Executable file not found at: '' @ exePath)], None)
          else
            let manager = new_world exePath exeArgs;
                (err, w) = Start sp manager;
                acts = [CreateManager exePath exeArgs, InitialStart err,
                        ListenAndServe ('':'' @ port)]
            in (case listen of
                  Some e \<Rightarrow> (acts @ [Fatal (''Failed to start server: '' @ e)], None)
                | None \<Rightarrow> (acts, Some w)))"

subsection \<open>What holds in every reachable state\<close>

text \<open>
  A \<open>Cmd\<close> is quiet when it has no child that can still write or be waited for: it was
  never started, or \<open>Wait\<close> has returned for it. It is wired when both its streams go to
  the writer \<open>Start\<close> builds. A goroutine is finished when it has committed.
\<close>

definition quiet :: "Cmd \<Rightarrow> bool" where
  "quiet c \<longleftrightarrow> Process c = None \<or> ProcessState c \<noteq> None"

definition wired :: "Cmd \<Rightarrow> bool" where
  "wired c \<longleftrightarrow> Stdout c = multiWriter \<and> Stderr c = multiWriter"

definition finished :: "reaper \<Rightarrow> bool" where
  "finished r \<longleftrightarrow> pc r = Done"

text \<open>
  The goroutine \<open>r\<close> and the \<open>Cmd\<close> \<open>c\<close> of the run in progress: the goroutine was
  created for the \<open>Cmd\<close> that \<open>pm.cmd\<close> points to, if it is in \<open>Wait\<close> then on that \<open>Cmd\<close>,
  and \<open>Wait\<close> has returned for \<open>c\<close> exactly when the goroutine is back from it.
\<close>

definition in_step :: "World \<Rightarrow> reaper \<Rightarrow> Cmd \<Rightarrow> bool" where
  "in_step w r c \<longleftrightarrow>
     spawnedFor r = cmd (pm w) \<and> Process c \<noteq> None \<and>
     pc r \<noteq> Done \<and> pc r \<noteq> Panicked \<and>
     (\<forall>a. pc r = Waiting a \<longrightarrow> cmd (pm w) = Some a) \<and>
     ((\<exists>err. pc r = Returned err) \<longleftrightarrow> ProcessState c \<noteq> None)"

text \<open>
  The invariant: \<open>pm.cmd\<close> is nil exactly in \<open>StatusNotStarted\<close> and otherwise points to
  the \<open>Cmd\<close> allocated last; all older \<open>Cmd\<close>s are quiet and all older goroutines
  finished; while the status is \<open>StatusRunning\<close> the last goroutine is the one of the run in
  progress; in every other status every \<open>Cmd\<close> is quiet and every goroutine finished.
\<close>

definition consistent :: "World \<Rightarrow> bool" where
  "consistent w \<longleftrightarrow>
     (\<forall>c \<in> set (heap w). wired c) \<and>
     (\<forall>c \<in> set (butlast (heap w)). quiet c) \<and>
     (\<forall>r \<in> set (butlast (reapers w)). finished r) \<and>
     (status (pm w) = StatusNotStarted \<longrightarrow>
        cmd (pm w) = None \<and> heap w = [] \<and> reapers w = []) \<and>
     (status (pm w) \<noteq> StatusNotStarted \<longrightarrow>
        heap w \<noteq> [] \<and> cmd (pm w) = Some (length (heap w) - 1)) \<and>
     (status (pm w) = StatusRunning \<longrightarrow>
        reapers w \<noteq> [] \<and> in_step w (last (reapers w)) (last (heap w))) \<and>
     (status (pm w) \<noteq> StatusRunning \<longrightarrow>
        (\<forall>c \<in> set (heap w). quiet c) \<and> (\<forall>r \<in> set (reapers w). finished r))"

fun is_ReaperCommit :: "event \<Rightarrow> bool" where
  "is_ReaperCommit (ReaperCommit i) = True"
| "is_ReaperCommit ev = False"

text \<open>The events that are calls of the control interface; the others happen by themselves.\<close>

fun is_call :: "event \<Rightarrow> bool" where
  "is_call (CallStart sp) = True"
| "is_call (CallStop kill) = True"
| "is_call CallGetStatus = True"
| "is_call CallGetLogs = True"
| "is_call ev = False"


text \<open>A file system in which every path exists.\<close>

definition every_file_exists :: "string \<Rightarrow> stat_result" where
  "every_file_exists f = StatOk"

section \<open>Properties\<close>

subsection \<open>Lists whose last element is the only one that matters\<close>

lemma all_butlast_last:
  "xs \<noteq> [] \<Longrightarrow> (\<forall>x\<in>set (butlast xs). P x) \<Longrightarrow> P (last xs) \<Longrightarrow> x \<in> set xs \<Longrightarrow> P x"
  by (metis append_butlast_last_id in_set_conv_decomp butlast_append butlast_snoc last_snoc
      rotate1.simps(2) set_rotate1 set_ConsD)

lemma not_butlast_is_last:
  "i < length xs \<Longrightarrow> \<forall>x\<in>set (butlast xs). P x \<Longrightarrow> \<not> P (xs ! i) \<Longrightarrow> i = length xs - Suc 0"
proof (rule ccontr)
  assume a: "i < length xs" "\<forall>x\<in>set (butlast xs). P x" "\<not> P (xs ! i)" "i \<noteq> length xs - Suc 0"
  then have "i < length (butlast xs)" by simp
  then have "butlast xs ! i \<in> set (butlast xs)" by (rule nth_mem)
  moreover have "butlast xs ! i = xs ! i"
    using \<open>i < length (butlast xs)\<close> by (simp add: nth_butlast)
  ultimately show False using a by auto
qed

lemma update_last_conv: "xs \<noteq> [] \<Longrightarrow> xs[length xs - Suc 0 := y] = butlast xs @ [y]"
  by (cases xs rule: rev_cases) simp_all

lemma nth_last: "xs \<noteq> [] \<Longrightarrow> xs ! (length xs - Suc 0) = last xs"
  by (simp add: last_conv_nth)

subsection \<open>The invariant holds at the start and after every step\<close>

lemma consistent_new: "consistent (new_world p as)"
  by (simp add: consistent_def new_world_def NewProcessManager_def)

lemma live_last:
  assumes "consistent w" "i < length (reapers w)" "pc (reapers w ! i) \<noteq> Done"
  shows "status (pm w) = StatusRunning \<and> i = length (reapers w) - Suc 0"
proof -
  have r: "status (pm w) = StatusRunning"
  proof (rule ccontr)
    assume "status (pm w) \<noteq> StatusRunning"
    with assms(1) have "\<forall>r\<in>set (reapers w). finished r" by (simp add: consistent_def)
    with assms(2) have "finished (reapers w ! i)" by simp
    with assms(3) show False by (simp add: finished_def)
  qed
  from assms(1) have "\<forall>r\<in>set (butlast (reapers w)). finished r" by (simp add: consistent_def)
  with assms(2,3) have "i = length (reapers w) - Suc 0"
    by (intro not_butlast_is_last [where P = finished]) (auto simp: finished_def)
  with r show ?thesis by simp
qed

lemma running_facts:
  assumes "consistent w" "status (pm w) = StatusRunning"
  shows "heap w \<noteq> []" "cmd (pm w) = Some (length (heap w) - Suc 0)" "reapers w \<noteq> []"
    "in_step w (last (reapers w)) (last (heap w))"
  using assms by (simp_all add: consistent_def)

lemma noisy_last:
  assumes "consistent w" "a < length (heap w)" "\<not> quiet (heap w ! a)"
  shows "status (pm w) = StatusRunning \<and> a = length (heap w) - Suc 0"
proof -
  have r: "status (pm w) = StatusRunning"
  proof (rule ccontr)
    assume "status (pm w) \<noteq> StatusRunning"
    with assms(1) have "\<forall>c\<in>set (heap w). quiet c" by (simp add: consistent_def)
    with assms(2,3) show False by simp
  qed
  from assms(1) have "\<forall>c\<in>set (butlast (heap w)). quiet c" by (simp add: consistent_def)
  with assms(2,3) have "a = length (heap w) - Suc 0"
    by (intro not_butlast_is_last [where P = quiet]) auto
  with r show ?thesis by simp
qed

lemma consistent_Start: "consistent w \<Longrightarrow> consistent (snd (Start sp w))"
proof (cases "status (pm w) = StatusRunning")
  case True
  then show "consistent w \<Longrightarrow> ?thesis" by (simp add: Start_def)
next
  case False
  assume w: "consistent w"
  from w False have q: "\<forall>c\<in>set (heap w). quiet c" by (simp add: consistent_def)
  from w False have f: "\<forall>r\<in>set (reapers w). finished r" by (simp add: consistent_def)
  from w have wi: "\<forall>c\<in>set (heap w). wired c" by (simp add: consistent_def)
  show ?thesis
  proof (cases sp)
    case (SpawnOk pid)
    with False q f wi show ?thesis
      by (simp add: Start_def Let_def consistent_def exec_Command_def wired_def in_step_def
          finished_def)
  next
    case (SpawnErr e)
    have "\<forall>r\<in>set (butlast (reapers w)). finished r" using f by (auto dest: in_set_butlastD)
    with SpawnErr False q f wi show ?thesis
      by (simp add: Start_def Let_def consistent_def exec_Command_def wired_def quiet_def)
  qed
qed

lemma Stop_frame: "snd (Stop k w) = w \<or> (\<exists>s. snd (Stop k w) = w\<lparr>signals := s\<rparr>)"
  by (auto simp: Stop_def split: option.splits)

lemma consistent_signals: "consistent (w\<lparr>signals := s\<rparr>) = consistent w"
  by (simp add: consistent_def in_step_def)

lemma consistent_Stop: "consistent w \<Longrightarrow> consistent (snd (Stop k w))"
  using Stop_frame [of k w] by (auto simp: consistent_signals)

lemma consistent_read: "consistent w \<Longrightarrow> consistent (waitForProcess_read i w)"
proof (cases "i < length (reapers w) \<and> pc (reapers w ! i) = Spawned")
  case False
  then show "consistent w \<Longrightarrow> ?thesis" by (auto simp: waitForProcess_read_def)
next
  case True
  assume w: "consistent w"
  from True w have r: "status (pm w) = StatusRunning" and i: "i = length (reapers w) - Suc 0"
    using live_last [of w i] by auto
  note rf = running_facts [OF w r]
  from True i rf have sp: "pc (last (reapers w)) = Spawned" by (simp add: nth_last)
  have d: "deref w (length (heap w) - Suc 0) = Some (last (heap w))"
    using rf by (simp add: deref_def nth_last)
  have eq: "waitForProcess_read i w = set_pc i (Waiting (length (heap w) - Suc 0)) w"
    using True rf d by (simp add: waitForProcess_read_def)
  show ?thesis
    unfolding eq using w r rf sp i
    by (simp add: consistent_def set_pc_def update_last_conv nth_last in_step_def)
qed

lemma consistent_wait: "consistent w \<Longrightarrow> consistent (waitForProcess_wait i e w)"
proof (cases "i < length (reapers w) \<and> (\<exists>a. pc (reapers w ! i) = Waiting a)")
  case False
  then show "consistent w \<Longrightarrow> ?thesis"
    by (auto simp: waitForProcess_wait_def split: reaper_pc.splits)
next
  case True
  assume w: "consistent w"
  from True obtain a where a: "pc (reapers w ! i) = Waiting a" by blast
  from True w a have r: "status (pm w) = StatusRunning" and i: "i = length (reapers w) - Suc 0"
    using live_last [of w i] by auto
  note rf = running_facts [OF w r]
  from a i rf have sp: "pc (last (reapers w)) = Waiting a" by (simp add: nth_last)
  with rf have a_eq: "a = length (heap w) - Suc 0" and ps: "ProcessState (last (heap w)) = None"
    and pr: "Process (last (heap w)) \<noteq> None"
    by (auto simp: in_step_def)
  have d: "deref w a = Some (last (heap w))"
    using rf a_eq by (simp add: deref_def nth_last)
  have eq: "waitForProcess_wait i e w =
      set_pc i (Returned (wait_error_of e))
        (w\<lparr>heap := (heap w)[a := (last (heap w))\<lparr>ProcessState := Some e\<rparr>]\<rparr>)"
    using True a d ps pr by (auto simp: waitForProcess_wait_def cmd_Wait_def)
  from w have wi: "\<forall>c\<in>set (heap w). wired c" by (simp add: consistent_def)
  have "wired (last (heap w))" using wi rf by simp
  with wi have wi2: "\<forall>c\<in>set (butlast (heap w)). wired c" "wired ((last (heap w))\<lparr>ProcessState := Some e\<rparr>)"
    by (auto simp: wired_def dest: in_set_butlastD)
  show ?thesis
    unfolding eq using w r rf sp i a_eq wi2 pr
    by (simp add: consistent_def set_pc_def update_last_conv nth_last in_step_def)
qed

lemma consistent_commit: "consistent w \<Longrightarrow> consistent (waitForProcess_commit i w)"
proof (cases "i < length (reapers w) \<and> (\<exists>err. pc (reapers w ! i) = Returned err)")
  case False
  then show "consistent w \<Longrightarrow> ?thesis"
    by (auto simp: waitForProcess_commit_def split: reaper_pc.splits)
next
  case True
  assume w: "consistent w"
  from True obtain err where a: "pc (reapers w ! i) = Returned err" by blast
  from True w a have r: "status (pm w) = StatusRunning" and i: "i = length (reapers w) - Suc 0"
    using live_last [of w i] by auto
  note rf = running_facts [OF w r]
  from a i rf have sp: "pc (last (reapers w)) = Returned err" by (simp add: nth_last)
  with rf have q: "quiet (last (heap w))"
    by (auto simp: in_step_def quiet_def)
  have eq: "waitForProcess_commit i w =
      set_pc i Done (w\<lparr>pm := (pm w)\<lparr>status := commit_status err\<rparr>\<rparr>)"
    using True a by (simp add: waitForProcess_commit_def)
  have cs: "commit_status err = StatusSuccess \<or> commit_status err = StatusFailed"
    by (auto simp: commit_status_def split: option.splits wait_err.splits)
  from w have "\<forall>c\<in>set (butlast (heap w)). quiet c" by (simp add: consistent_def)
  with q rf have qa: "\<forall>c\<in>set (heap w). quiet c" by (blast intro: all_butlast_last)
  from w have fb: "\<forall>r\<in>set (butlast (reapers w)). finished r" by (simp add: consistent_def)
  show ?thesis
    unfolding eq using w r rf i qa fb cs
    by (auto simp: consistent_def set_pc_def update_last_conv finished_def)
qed

lemma write_sinks_multiWriter:
  "write_sinks bs out multiWriter w =
     (case out of
        None \<Rightarrow> (True, w\<lparr>pm := (pm w)\<lparr>logBuffer := logBuffer (pm w) @ bs\<rparr>,
                          console := console w @ bs\<rparr>)
      | Some e \<Rightarrow> (False, w\<lparr>pm := (pm w)\<lparr>logBuffer := logBuffer (pm w) @ bs\<rparr>\<rparr>))"
  by (simp add: multiWriter_def split: option.splits)

lemma can_copy_not_quiet: "can_copy c \<Longrightarrow> \<not> quiet c"
  by (simp add: can_copy_def quiet_def)

lemma child_write_current:
  assumes w: "consistent w" and a: "a < length (heap w)" "can_copy (heap w ! a)"
  shows "child_write a st bs out w =
      (case out of
         None \<Rightarrow> w\<lparr>pm := (pm w)\<lparr>logBuffer := logBuffer (pm w) @ bs\<rparr>,
                    console := console w @ bs\<rparr>
       | Some e \<Rightarrow> w\<lparr>pm := (pm w)\<lparr>logBuffer := logBuffer (pm w) @ bs\<rparr>,
                      heap := (heap w)[a := (heap w ! a)\<lparr>copying := False\<rparr>]\<rparr>)"
proof -
  from w have wi: "\<forall>c\<in>set (heap w). wired c" by (simp add: consistent_def)
  with a(1) have "wired (heap w ! a)" by simp
  then have wl: "Stdout (heap w ! a) = multiWriter" "Stderr (heap w ! a) = multiWriter"
    by (simp_all add: wired_def)
  show ?thesis
    using a wl
    by (cases st; cases out)
      (simp_all add: child_write_def deref_def write_sinks_multiWriter)
qed

lemma child_write_quiet:
  "\<not> (a < length (heap w) \<and> can_copy (heap w ! a)) \<Longrightarrow> child_write a st bs out w = w"
  by (auto simp: child_write_def deref_def)

lemma consistent_cong:
  "status (pm w') = status (pm w) \<Longrightarrow> cmd (pm w') = cmd (pm w) \<Longrightarrow> heap w' = heap w \<Longrightarrow>
     reapers w' = reapers w \<Longrightarrow> consistent w' = consistent w"
  by (simp add: consistent_def in_step_def)

lemma consistent_log: "consistent (w\<lparr>pm := (pm w)\<lparr>logBuffer := l\<rparr>\<rparr>) = consistent w"
  by (rule consistent_cong) simp_all

lemma consistent_console: "consistent (w\<lparr>console := l\<rparr>) = consistent w"
  by (simp add: consistent_def in_step_def)

lemma consistent_stop_copying:
  assumes w: "consistent w" and a: "a < length (heap w)" "\<not> quiet (heap w ! a)"
  shows "consistent (w\<lparr>heap := (heap w)[a := (heap w ! a)\<lparr>copying := False\<rparr>]\<rparr>)"
proof -
  from a w have r: "status (pm w) = StatusRunning" and i: "a = length (heap w) - Suc 0"
    using noisy_last [of w a] by auto
  note rf = running_facts [OF w r]
  from w have wi: "\<forall>c\<in>set (heap w). wired c" by (simp add: consistent_def)
  have "wired (last (heap w))" using wi rf by simp
  with wi have wi2: "\<forall>c\<in>set (butlast (heap w)). wired c"
    "wired ((last (heap w))\<lparr>copying := False\<rparr>)"
    by (auto simp: wired_def dest: in_set_butlastD)
  show ?thesis
    using w r rf i wi2
    by (simp add: consistent_def update_last_conv nth_last in_step_def)
qed

lemma consistent_write: "consistent w \<Longrightarrow> consistent (child_write a st bs out w)"
proof (cases "a < length (heap w) \<and> can_copy (heap w ! a)")
  case False
  then show "consistent w \<Longrightarrow> ?thesis" by (simp add: child_write_quiet)
next
  case True
  assume w: "consistent w"
  from True have nq: "\<not> quiet (heap w ! a)" by (simp add: can_copy_not_quiet)
  show ?thesis
  proof (cases out)
    case None
    have "child_write a st bs out w =
        w\<lparr>pm := (pm w)\<lparr>logBuffer := logBuffer (pm w) @ bs\<rparr>, console := console w @ bs\<rparr>"
      using w True None by (simp add: child_write_current)
    with w show ?thesis by (simp add: consistent_log consistent_console)
  next
    case (Some e)
    let ?w' = "w\<lparr>heap := (heap w)[a := (heap w ! a)\<lparr>copying := False\<rparr>]\<rparr>"
    have c: "consistent ?w'" using w True nq by (simp add: consistent_stop_copying)
    have "child_write a st bs out w = ?w'\<lparr>pm := (pm ?w')\<lparr>logBuffer := logBuffer (pm w) @ bs\<rparr>\<rparr>"
      using w True Some by (simp add: child_write_current)
    moreover have "consistent (?w'\<lparr>pm := (pm ?w')\<lparr>logBuffer := logBuffer (pm w) @ bs\<rparr>\<rparr>) =
        consistent ?w'"
      by (rule consistent_cong) simp_all
    ultimately show ?thesis using c by simp
  qed
qed

lemma consistent_step: "consistent w \<Longrightarrow> consistent (step w ev)"
  by (cases ev)
    (simp_all add: consistent_Start consistent_Stop consistent_read consistent_wait
      consistent_commit consistent_write)

lemma consistent_run: "consistent w \<Longrightarrow> consistent (run_events es w)"
  unfolding run_events_def by (induction es arbitrary: w) (simp_all add: consistent_step)

lemma consistent_reachable: "consistent (run_events es (new_world p as))"
  by (rule consistent_run [OF consistent_new])


subsection \<open>What a step can change\<close>

lemma pm_write_sinks:
  "status (pm (snd (write_sinks bs out ss w))) = status (pm w) \<and>
   cmd (pm (snd (write_sinks bs out ss w))) = cmd (pm w) \<and>
   reapers (snd (write_sinks bs out ss w)) = reapers w \<and>
   heap (snd (write_sinks bs out ss w)) = heap w"
  by (induction bs out ss w rule: write_sinks.induct) (simp_all split: option.splits)

lemma child_write_frame:
  "status (pm (child_write a st bs out w)) = status (pm w) \<and>
   cmd (pm (child_write a st bs out w)) = cmd (pm w) \<and>
   reapers (child_write a st bs out w) = reapers w"
proof -
  have "status (pm (snd x)) = status (pm w) \<and> cmd (pm (snd x)) = cmd (pm w) \<and>
      reapers (snd x) = reapers w \<Longrightarrow>
    status (pm (case x of (ok, w') \<Rightarrow> if ok then w' else w'\<lparr>heap := h w'\<rparr>)) = status (pm w) \<and>
    cmd (pm (case x of (ok, w') \<Rightarrow> if ok then w' else w'\<lparr>heap := h w'\<rparr>)) = cmd (pm w) \<and>
    reapers (case x of (ok, w') \<Rightarrow> if ok then w' else w'\<lparr>heap := h w'\<rparr>) = reapers w"
    for x :: "bool \<times> World" and h
    by (cases x) simp
  then show ?thesis
    by (simp add: child_write_def Let_def pm_write_sinks split: option.splits)
qed

lemma read_frame: "pm (waitForProcess_read i w) = pm w"
  by (simp add: waitForProcess_read_def set_pc_def split: option.splits)

lemma wait_frame: "pm (waitForProcess_wait i e w) = pm w"
  by (simp add: waitForProcess_wait_def set_pc_def split: option.splits reaper_pc.splits prod.splits)

lemma commit_status_terminal:
  "commit_status err = StatusSuccess \<or> commit_status err = StatusFailed"
  by (auto simp: commit_status_def split: option.splits wait_err.splits)

lemma commit_frame:
  "cmd (pm (waitForProcess_commit i w)) = cmd (pm w) \<and>
   (status (pm (waitForProcess_commit i w)) = status (pm w) \<or>
    status (pm (waitForProcess_commit i w)) = StatusSuccess \<or>
    status (pm (waitForProcess_commit i w)) = StatusFailed)"
  using commit_status_terminal
  by (auto simp: waitForProcess_commit_def set_pc_def split: reaper_pc.splits)

lemma Stop_pm: "pm (snd (Stop kill w)) = pm w"
  using Stop_frame [of kill w] by auto

lemma Start_status:
  "status (pm (snd (Start sp w))) = StatusRunning \<or> status (pm (snd (Start sp w))) = StatusFailed"
  by (simp add: Start_def Let_def split: spawn_result.splits)

lemma step_leaves_running_only_by_commit:
  assumes "status (pm w) = StatusRunning" "status (pm (step w ev)) \<noteq> StatusRunning"
  shows "is_ReaperCommit ev \<and>
    (status (pm (step w ev)) = StatusSuccess \<or> status (pm (step w ev)) = StatusFailed)"
proof (cases ev)
  case (CallStart sp)
  with assms show ?thesis by (simp add: Start_def)
next
  case (CallStop kill)
  with assms show ?thesis by (simp add: Stop_pm)
next
  case (ReaperRead i)
  with assms show ?thesis by (simp add: read_frame)
next
  case (ChildWrite a st bs)
  with assms show ?thesis by (simp add: child_write_frame)
next
  case (WaitReturns i e)
  with assms show ?thesis by (simp add: wait_frame)
next
  case (ReaperCommit i)
  with assms commit_frame [of i w] show ?thesis by auto
qed (use assms in simp_all)

lemma step_never_back_to_not_started:
  "status (pm w) \<noteq> StatusNotStarted \<Longrightarrow> status (pm (step w ev)) \<noteq> StatusNotStarted"
proof (cases ev)
  case (CallStart sp)
  then show ?thesis using Start_status [of sp w] by auto
next
  case (ReaperCommit i)
  assume "status (pm w) \<noteq> StatusNotStarted"
  with ReaperCommit commit_frame [of i w] show ?thesis by auto
qed (simp_all add: Stop_pm read_frame child_write_frame wait_frame)

lemma run_never_back_to_not_started:
  "status (pm w) \<noteq> StatusNotStarted \<Longrightarrow> status (pm (run_events es w)) \<noteq> StatusNotStarted"
  unfolding run_events_def
  by (induction es arbitrary: w) (simp_all add: step_never_back_to_not_started)

lemma wait_returns_eq:
  assumes w: "consistent w" and i: "i < length (reapers w)" and a: "pc (reapers w ! i) = Waiting a"
  shows "waitForProcess_wait i e w =
      set_pc i (Returned (wait_error_of e))
        (w\<lparr>heap := (heap w)[a := (last (heap w))\<lparr>ProcessState := Some e\<rparr>]\<rparr>)"
proof -
  from w i a have r: "status (pm w) = StatusRunning" and il: "i = length (reapers w) - Suc 0"
    using live_last [of w i] by auto
  note rf = running_facts [OF w r]
  from a il rf have sp: "pc (last (reapers w)) = Waiting a" by (simp add: nth_last)
  with rf have a_eq: "a = length (heap w) - Suc 0" and ps: "ProcessState (last (heap w)) = None"
    and pr: "Process (last (heap w)) \<noteq> None"
    by (auto simp: in_step_def)
  have d: "deref w a = Some (last (heap w))"
    using rf a_eq by (simp add: deref_def nth_last)
  show ?thesis
    using i a d ps pr by (auto simp: waitForProcess_wait_def cmd_Wait_def)
qed

lemma commit_status_of_end:
  "commit_status (wait_error_of e) = (if e = Exited 0 then StatusSuccess else StatusFailed)"
  by (cases e) (simp_all add: commit_status_def)

lemma Stop_no_panic:
  assumes "consistent w" "status (pm w) = StatusRunning"
  shows "fst (Stop kill w) \<noteq> Panic"
proof -
  note rf = running_facts [OF assms]
  have d: "deref w (length (heap w) - Suc 0) = Some (last (heap w))"
    using rf by (simp add: deref_def nth_last)
  from rf have "Process (last (heap w)) \<noteq> None" by (simp add: in_step_def)
  with assms rf d show ?thesis by (auto simp: Stop_def split: option.splits)
qed


lemma read_heap: "heap (waitForProcess_read i w) = heap w"
  by (simp add: waitForProcess_read_def set_pc_def split: option.splits)

lemma Stop_heap: "heap (snd (Stop kill w)) = heap w"
  using Stop_frame [of kill w] by auto





subsection \<open>The copying goroutine\<close>

lemma copier_running_iff:
  assumes "consistent w"
  shows "copier_running w \<longleftrightarrow> heap w \<noteq> [] \<and> can_copy (last (heap w))"
proof
  assume "copier_running w"
  then obtain c where c: "c \<in> set (heap w)" "can_copy c"
    by (auto simp: copier_running_def list_ex_iff)
  then obtain b where b: "b < length (heap w)" "heap w ! b = c"
    by (auto simp: in_set_conv_nth)
  with c have "\<not> quiet (heap w ! b)" by (simp add: can_copy_not_quiet)
  with assms b have bl: "b = length (heap w) - Suc 0" using noisy_last [of w b] by simp
  from b have ne: "heap w \<noteq> []" by auto
  from b c have "can_copy (heap w ! b)" by simp
  then have "can_copy (last (heap w))" unfolding bl using ne by (simp add: nth_last)
  with ne show "heap w \<noteq> [] \<and> can_copy (last (heap w))" by simp
next
  assume "heap w \<noteq> [] \<and> can_copy (last (heap w))"
  then show "copier_running w"
    by (auto simp: copier_running_def list_ex_iff intro: bexI [of _ "last (heap w)"])
qed

lemma copier_running_current:
  assumes "consistent w" "copier_running w"
  shows "status (pm w) = StatusRunning \<and> cmd (pm w) = Some (length (heap w) - Suc 0)"
proof -
  from assms have h: "heap w \<noteq> []" "can_copy (last (heap w))"
    by (simp_all add: copier_running_iff)
  then have "length (heap w) - Suc 0 < length (heap w)"
    "\<not> quiet (heap w ! (length (heap w) - Suc 0))"
    by (simp_all add: nth_last can_copy_not_quiet)
  with assms(1) have "status (pm w) = StatusRunning" using noisy_last by blast
  with assms(1) show ?thesis by (simp add: running_facts)
qed

lemma not_running_no_copier:
  "consistent w \<Longrightarrow> status (pm w) \<noteq> StatusRunning \<Longrightarrow> \<not> copier_running w"
  using copier_running_current by blast

lemma no_copier_no_write:
  assumes "\<not> copier_running w"
  shows "child_write b st bs out w = w"
proof (rule child_write_quiet)
  show "\<not> (b < length (heap w) \<and> can_copy (heap w ! b))"
    using assms by (auto simp: copier_running_def list_ex_iff)
qed








subsection \<open>When no run is in progress\<close>

lemma idle_step:
  assumes w: "consistent w" and r: "status (pm w) \<noteq> StatusRunning" and n: "\<not> is_call ev"
  shows "step w ev = w"
proof -
  have d: "pc (reapers w ! i) = Done" if "i < length (reapers w)" for i
    using live_last [OF w that] r by blast
  show ?thesis
  proof (cases ev)
    case (ReaperRead i)
    then show ?thesis using d [of i] by (auto simp: waitForProcess_read_def)
  next
    case (ChildWrite a st bs out)
    then show ?thesis using w r by (simp add: not_running_no_copier no_copier_no_write)
  next
    case (WaitReturns i e)
    then show ?thesis using d [of i] by (auto simp: waitForProcess_wait_def)
  next
    case (ReaperCommit i)
    then show ?thesis using d [of i] by (auto simp: waitForProcess_commit_def)
  qed (use n in simp_all)
qed

lemma idle_run:
  assumes "consistent w" "status (pm w) \<noteq> StatusRunning" "\<forall>ev\<in>set es. \<not> is_call ev"
  shows "run_events es w = w"
  using assms
  by (induction es) (simp_all add: run_events_def idle_step)

subsection \<open>Evaluating the model on a concrete run\<close>

lemmas eval_defs = run_events_def Start_def Stop_def Let_def new_world_def NewProcessManager_def
  exec_Command_def multiWriter_def waitForProcess_read_def waitForProcess_wait_def
  waitForProcess_commit_def set_pc_def deref_def cmd_Wait_def commit_status_def os_Signal_def
  child_write_def can_copy_def copier_running_def GetStatus_def GetLogs_def

subsection \<open>Start and Stop in the wrong state\<close>

text \<open>
  C3. In every state whose status is \<open>StatusRunning\<close>, \<open>Start\<close> returns the error
  "process is already running" and the state after the call is the state before it:
  status, handle, log buffer and everything else are unchanged. This holds whatever the
  operating system would have answered to the spawn.
\<close>

theorem Start_while_running_rejected:
  "status (pm w) = StatusRunning \<Longrightarrow> Start sp w = (Some ''process is already running'', w)"
  by (simp add: Start_def)

theorem Start_while_running_rejected_witness:
  "status (pm (run_events [CallStart (SpawnOk 7)] (new_world ''/bin/worker'' [''-v''])))
     = StatusRunning \<and>
   Start (SpawnOk 8) (run_events [CallStart (SpawnOk 7)] (new_world ''/bin/worker'' [''-v''])) =
     (Some ''process is already running'',
      run_events [CallStart (SpawnOk 7)] (new_world ''/bin/worker'' [''-v'']))"
proof -
  have h: "status (pm (run_events [CallStart (SpawnOk 7)] (new_world ''/bin/worker'' [''-v'']))) =
      StatusRunning"
    by (simp add: eval_defs)
  show ?thesis
    using h Start_while_running_rejected [OF h, of "SpawnOk 8"] by simp
qed

text \<open>
  C5. In every state whose status is not \<open>StatusRunning\<close> (not started, success or
  failed), \<open>Stop\<close> returns the error "process is not running" and the state after the call
  is the state before it: no signal is added to the signals delivered and no field of the
  record changes.
\<close>

theorem Stop_when_not_running_rejected:
  "status (pm w) \<noteq> StatusRunning \<Longrightarrow>
     Stop kill w = (Return (Some ''process is not running''), w) \<and>
     signals (snd (Stop kill w)) = signals w \<and> pm (snd (Stop kill w)) = pm w"
  by (simp add: Stop_def)

theorem Stop_when_not_running_rejected_witness:
  "status (pm (run_events [CallStart (SpawnOk 7), ReaperRead 0, WaitReturns 0 (Exited 0),
       ReaperCommit 0] (new_world ''/bin/worker'' []))) = StatusSuccess \<and>
   fst (Stop None (run_events [CallStart (SpawnOk 7), ReaperRead 0, WaitReturns 0 (Exited 0),
       ReaperCommit 0] (new_world ''/bin/worker'' []))) =
     Return (Some ''process is not running'') \<and>
   signals (snd (Stop None (run_events [CallStart (SpawnOk 7), ReaperRead 0,
       WaitReturns 0 (Exited 0), ReaperCommit 0] (new_world ''/bin/worker'' [])))) = []"
proof -
  let ?w = "run_events [CallStart (SpawnOk 7), ReaperRead 0, WaitReturns 0 (Exited 0),
       ReaperCommit 0] (new_world ''/bin/worker'' [])"
  have h: "status (pm ?w) = StatusSuccess" and s: "signals ?w = []"
    by (simp_all add: eval_defs)
  then have "status (pm ?w) \<noteq> StatusRunning" by simp
  from Stop_when_not_running_rejected [OF this, of None] h s show ?thesis by simp
qed

text \<open>
  C6. In every state whose status is \<open>StatusRunning\<close>, \<open>Stop\<close> leaves the status (and the
  whole record) as it is. When the handle is that of a started process and the signal is
  delivered, \<open>Stop\<close> returns nil, the signal SIGTERM to that process is the only change
  and the status is still \<open>StatusRunning\<close>; when the delivery fails, \<open>Stop\<close> returns the
  error to its caller ("failed to send SIGTERM to process: " and the cause) and changes
  nothing. In a state the program can reach, \<open>Stop\<close> does not panic.
\<close>

theorem Stop_leaves_status_running:
  assumes "status (pm w) = StatusRunning"
  shows "status (pm (snd (Stop kill w))) = StatusRunning \<and> pm (snd (Stop kill w)) = pm w \<and>
     (\<forall>a c pid. cmd (pm w) = Some a \<and> deref w a = Some c \<and> Process c = Some pid \<longrightarrow>
        (os_Signal c kill = None \<longrightarrow>
           Stop kill w = (Return None, w\<lparr>signals := signals w @ [(pid, SIGTERM)]\<rparr>)) \<and>
        (\<forall>e. os_Signal c kill = Some e \<longrightarrow>
           Stop kill w = (Return (Some (''failed to send SIGTERM to process: '' @ e)), w))) \<and>
     (\<forall>es p as. w = run_events es (new_world p as) \<longrightarrow> fst (Stop kill w) \<noteq> Panic)"
proof -
  have a: "pm (snd (Stop kill w)) = pm w"
    using Stop_frame [of kill w] by auto
  have b: "\<forall>es p as. w = run_events es (new_world p as) \<longrightarrow> fst (Stop kill w) \<noteq> Panic"
    using assms Stop_no_panic [OF consistent_reachable] by blast
  have c: "\<forall>a c pid. cmd (pm w) = Some a \<and> deref w a = Some c \<and> Process c = Some pid \<longrightarrow>
        (os_Signal c kill = None \<longrightarrow>
           Stop kill w = (Return None, w\<lparr>signals := signals w @ [(pid, SIGTERM)]\<rparr>)) \<and>
        (\<forall>e. os_Signal c kill = Some e \<longrightarrow>
           Stop kill w = (Return (Some (''failed to send SIGTERM to process: '' @ e)), w))"
    using assms by (simp add: Stop_def)
  from a b c assms show ?thesis by simp
qed

theorem Stop_leaves_status_running_witness:
  "status (pm (run_events [CallStart (SpawnOk 7)] (new_world ''/bin/worker'' []))) = StatusRunning \<and>
   fst (Stop None (run_events [CallStart (SpawnOk 7)] (new_world ''/bin/worker'' []))) = Return None \<and>
   signals (snd (Stop None (run_events [CallStart (SpawnOk 7)] (new_world ''/bin/worker'' [])))) =
     [(7, SIGTERM)] \<and>
   status (pm (snd (Stop None (run_events [CallStart (SpawnOk 7)] (new_world ''/bin/worker'' [])))))
     = StatusRunning \<and>
   fst (Stop (Some ''operation not permitted'')
          (run_events [CallStart (SpawnOk 7)] (new_world ''/bin/worker'' []))) =
     Return (Some ''failed to send SIGTERM to process: operation not permitted'') \<and>
   status (pm (snd (Stop (Some ''operation not permitted'')
          (run_events [CallStart (SpawnOk 7)] (new_world ''/bin/worker'' []))))) = StatusRunning"
proof -
  let ?w = "run_events [CallStart (SpawnOk 7)] (new_world ''/bin/worker'' [])"
  let ?c = "\<lparr>Path = ''/bin/worker'', Args = [''/bin/worker''], Stdout = multiWriter,
             Stderr = multiWriter, Process = Some 7, ProcessState = None,
             copying = True\<rparr>"
  have h: "status (pm ?w) = StatusRunning" by (simp add: eval_defs)
  have f: "cmd (pm ?w) = Some 0" "deref ?w 0 = Some ?c" "Process ?c = Some 7"
    "signals ?w = []"
    by (simp_all add: eval_defs)
  have o: "os_Signal ?c None = None"
    "os_Signal ?c (Some ''operation not permitted'') = Some ''operation not permitted''"
    by (simp_all add: os_Signal_def)
  from Stop_leaves_status_running [OF h, of None] f o
  have 1: "status (pm (snd (Stop None ?w))) = StatusRunning"
    "Stop None ?w = (Return None, ?w\<lparr>signals := signals ?w @ [(7, SIGTERM)]\<rparr>)"
    by blast+
  from Stop_leaves_status_running [OF h, of "Some ''operation not permitted''"] f o
  have 2: "status (pm (snd (Stop (Some ''operation not permitted'') ?w))) = StatusRunning"
    "Stop (Some ''operation not permitted'') ?w =
       (Return (Some (''failed to send SIGTERM to process: '' @ ''operation not permitted'')), ?w)"
    by blast+
  from h 1 2 f(4) show ?thesis by simp
qed

subsection \<open>A spawn that fails\<close>

text \<open>
  C7. When \<open>Start\<close> is accepted and the spawn fails, \<open>Start\<close> sets the status to
  \<open>StatusFailed\<close>, returns the error "failed to start process: " and the cause, and
  creates no goroutine. The failure is an error value, not the end of the program: a later
  \<open>Start\<close> is accepted, and \<open>main\<close>, whose first \<open>Start\<close> fails this way, goes on to
  \<open>ListenAndServe\<close> with the status \<open>StatusFailed\<close> and no goroutine.
\<close>

theorem Start_spawn_failure:
  assumes "status (pm w) \<noteq> StatusRunning"
  shows "fst (Start (SpawnErr e) w) = Some (''failed to start process: '' @ e) \<and>
     status (pm (snd (Start (SpawnErr e) w))) = StatusFailed \<and>
     reapers (snd (Start (SpawnErr e) w)) = reapers w \<and>
     fst (Start (SpawnOk pid) (snd (Start (SpawnErr e) w))) = None \<and>
     (\<forall>port x xs stat. stat x \<noteq> StatNotExist \<longrightarrow>
        (\<exists>w'. main port (x # xs) stat (SpawnErr e) None =
           ([CreateManager x xs, InitialStart (Some (''failed to start process: '' @ e)),
             ListenAndServe ('':'' @ port)], Some w') \<and>
           status (pm w') = StatusFailed \<and> reapers w' = []))"
  using assms
  by (simp add: Start_def Let_def main_def new_world_def NewProcessManager_def)

theorem Start_spawn_failure_witness:
  "status (pm (new_world ''/bin/worker'' [])) \<noteq> StatusRunning \<and>
   fst (Start (SpawnErr ''permission denied'') (new_world ''/bin/worker'' [])) =
     Some ''failed to start process: permission denied'' \<and>
   status (pm (snd (Start (SpawnErr ''permission denied'') (new_world ''/bin/worker'' [])))) =
     StatusFailed \<and>
   reapers (snd (Start (SpawnErr ''permission denied'') (new_world ''/bin/worker'' []))) = []"
proof -
  have h: "status (pm (new_world ''/bin/worker'' [])) \<noteq> StatusRunning"
    and r: "reapers (new_world ''/bin/worker'' []) = []"
    by (simp_all add: new_world_def NewProcessManager_def)
  from Start_spawn_failure [OF h, of "''permission denied''"] h r show ?thesis by simp
qed

subsection \<open>The program's start\<close>




subsection \<open>The goroutine's commit\<close>

text \<open>
  C4. In every reachable state, when the \<open>Wait\<close> of a goroutine returns and the goroutine
  commits, the status becomes \<open>StatusSuccess\<close> exactly when the child exited with code 0
  (and \<open>Wait\<close> reported no error), and \<open>StatusFailed\<close> in every other case: another exit
  code, death by a signal, an error of \<open>Wait\<close>. The commit writes the status for the error
  value \<open>Wait\<close> returned, whatever happened in between. No other step takes the status
  from \<open>StatusRunning\<close> to another one, and the commit takes it to \<open>StatusSuccess\<close> or
  \<open>StatusFailed\<close> only.
\<close>

theorem reaper_commits_exit_status:
  assumes "w = run_events es (new_world p as)" "i < length (reapers w)"
    "pc (reapers w ! i) = Waiting a"
  shows "pc (reapers (step w (WaitReturns i e)) ! i) = Returned (wait_error_of e) \<and>
     status (pm (run_events [WaitReturns i e, ReaperCommit i] w)) =
       (if e = Exited 0 then StatusSuccess else StatusFailed) \<and>
     (\<forall>w0 j err. j < length (reapers w0) \<and> pc (reapers w0 ! j) = Returned err \<longrightarrow>
        status (pm (step w0 (ReaperCommit j))) =
          (case err of None \<Rightarrow> StatusSuccess | Some x \<Rightarrow> StatusFailed)) \<and>
     (\<forall>w0 ev. status (pm w0) = StatusRunning \<and> status (pm (step w0 ev)) \<noteq> StatusRunning \<longrightarrow>
        is_ReaperCommit ev \<and>
        (status (pm (step w0 ev)) = StatusSuccess \<or> status (pm (step w0 ev)) = StatusFailed))"
proof -
  have c: "consistent w" using assms(1) by (simp add: consistent_reachable)
  note eq = wait_returns_eq [OF c assms(2,3), of e]
  have 1: "pc (reapers (step w (WaitReturns i e)) ! i) = Returned (wait_error_of e)"
    using assms(2) by (simp add: eq set_pc_def)
  have 2: "status (pm (run_events [WaitReturns i e, ReaperCommit i] w)) =
       (if e = Exited 0 then StatusSuccess else StatusFailed)"
    using assms(2)
    by (simp add: run_events_def eq set_pc_def waitForProcess_commit_def commit_status_of_end)
  have 3: "\<forall>w0 j err. j < length (reapers w0) \<and> pc (reapers w0 ! j) = Returned err \<longrightarrow>
        status (pm (step w0 (ReaperCommit j))) =
          (case err of None \<Rightarrow> StatusSuccess | Some x \<Rightarrow> StatusFailed)"
    by (auto simp: waitForProcess_commit_def set_pc_def commit_status_def
        split: option.splits wait_err.splits)
  from 1 2 3 step_leaves_running_only_by_commit show ?thesis by blast
qed

theorem reaper_commits_exit_status_witness:
  "pc (reapers (run_events [CallStart (SpawnOk 7), ReaperRead 0] (new_world ''/bin/worker'' [])) ! 0)
     = Waiting 0 \<and>
   status (pm (run_events [WaitReturns 0 (Exited 0), ReaperCommit 0]
     (run_events [CallStart (SpawnOk 7), ReaperRead 0] (new_world ''/bin/worker'' [])))) =
     StatusSuccess \<and>
   status (pm (run_events [WaitReturns 0 (Exited 2), ReaperCommit 0]
     (run_events [CallStart (SpawnOk 7), ReaperRead 0] (new_world ''/bin/worker'' [])))) =
     StatusFailed \<and>
   status (pm (run_events [WaitReturns 0 (Signaled 15), ReaperCommit 0]
     (run_events [CallStart (SpawnOk 7), ReaperRead 0] (new_world ''/bin/worker'' [])))) =
     StatusFailed \<and>
   status (pm (run_events [WaitReturns 0 (WaitError ''write error''), ReaperCommit 0]
     (run_events [CallStart (SpawnOk 7), ReaperRead 0] (new_world ''/bin/worker'' [])))) =
     StatusFailed"
proof -
  let ?w = "run_events [CallStart (SpawnOk 7), ReaperRead 0] (new_world ''/bin/worker'' [])"
  have l: "0 < length (reapers ?w)" and h: "pc (reapers ?w ! 0) = Waiting 0"
    by (simp_all add: eval_defs)
  note t = reaper_commits_exit_status [OF refl l h]
  from h t [of "Exited 0"] t [of "Exited 2"] t [of "Signaled 15"] t [of "WaitError ''write error''"]
  show ?thesis by simp
qed

text \<open>
  C10, as the claim states it: after a launch with an existing path, the first status a
  request can observe is "running" (or "failed" when the first spawn failed). It fails:
  the child can exit with code 0 and its goroutine commit before the first request is
  served, and the first status observed is then "success".
\<close>

theorem first_status_can_be_success:
  "main ''8080'' [''/bin/true''] every_file_exists (SpawnOk 7) None =
     ([CreateManager ''/bin/true'' [], InitialStart None, ListenAndServe '':8080''],
      Some (snd (Start (SpawnOk 7) (new_world ''/bin/true'' [])))) \<and>
   status_string (GetStatus (run_events [ReaperRead 0, WaitReturns 0 (Exited 0), ReaperCommit 0]
     (snd (Start (SpawnOk 7) (new_world ''/bin/true'' []))))) = ''success''"
  by (simp add: main_def every_file_exists_def eval_defs)

text \<open>
  C10, amended. After a launch with a path for which \<open>os.Stat\<close> does not report that it
  does not exist, \<open>main\<close> creates the manager in \<open>StatusNotStarted\<close>, calls \<open>Start\<close> once
  and then \<open>ListenAndServe\<close>. At the moment \<open>Start\<close> returns, the status is
  \<open>StatusRunning\<close>, or \<open>StatusFailed\<close> if the spawn failed. From then on the goroutine and
  the child run beside the rest of \<open>main\<close> and beside the server: after any events, before
  or after the port is open, the status is \<open>StatusRunning\<close>, \<open>StatusSuccess\<close> or
  \<open>StatusFailed\<close>, never \<open>StatusNotStarted\<close>; and when the spawn failed it stays
  \<open>StatusFailed\<close> as long as no request is made.
\<close>

theorem status_after_launch_is_never_not_started:
  assumes "stat x \<noteq> StatNotExist"
  shows "main port (x # xs) stat sp None =
       ([CreateManager x xs, InitialStart (fst (Start sp (new_world x xs))),
         ListenAndServe ('':'' @ port)],
        Some (snd (Start sp (new_world x xs)))) \<and>
     status (pm (new_world x xs)) = StatusNotStarted \<and>
     GetStatus (snd (Start sp (new_world x xs))) =
       (case sp of SpawnOk pid \<Rightarrow> StatusRunning | SpawnErr e \<Rightarrow> StatusFailed) \<and>
     (\<forall>es. GetStatus (run_events es (snd (Start sp (new_world x xs)))) = StatusRunning \<or>
        GetStatus (run_events es (snd (Start sp (new_world x xs)))) = StatusSuccess \<or>
        GetStatus (run_events es (snd (Start sp (new_world x xs)))) = StatusFailed) \<and>
     (\<forall>es e. sp = SpawnErr e \<and> (\<forall>ev\<in>set es. \<not> is_call ev) \<longrightarrow>
        GetStatus (run_events es (snd (Start sp (new_world x xs)))) = StatusFailed)"
proof -
  let ?w0 = "snd (Start sp (new_world x xs))"
  have 1: "main port (x # xs) stat sp None =
       ([CreateManager x xs, InitialStart (fst (Start sp (new_world x xs))),
         ListenAndServe ('':'' @ port)], Some ?w0)"
    using assms by (simp add: main_def Let_def split: prod.splits)
  have 2: "GetStatus ?w0 =
       (case sp of SpawnOk pid \<Rightarrow> StatusRunning | SpawnErr e \<Rightarrow> StatusFailed)"
    by (simp add: GetStatus_def Start_def Let_def new_world_def NewProcessManager_def
        split: spawn_result.splits)
  then have "status (pm ?w0) \<noteq> StatusNotStarted"
    by (simp add: GetStatus_def split: spawn_result.splits)
  then have "status (pm (run_events es ?w0)) \<noteq> StatusNotStarted" for es
    by (rule run_never_back_to_not_started)
  then have 3: "\<forall>es. GetStatus (run_events es ?w0) = StatusRunning \<or>
        GetStatus (run_events es ?w0) = StatusSuccess \<or>
        GetStatus (run_events es ?w0) = StatusFailed"
    unfolding GetStatus_def by (metis ProcessStatus.exhaust)
  have 4: "status (pm (new_world x xs)) = StatusNotStarted"
    by (simp add: new_world_def NewProcessManager_def)
  have c: "consistent ?w0" by (rule consistent_Start [OF consistent_new])
  have 5: "\<forall>es e. sp = SpawnErr e \<and> (\<forall>ev\<in>set es. \<not> is_call ev) \<longrightarrow>
        GetStatus (run_events es ?w0) = StatusFailed"
  proof (intro allI impI)
    fix es e
    assume a: "sp = SpawnErr e \<and> (\<forall>ev\<in>set es. \<not> is_call ev)"
    with 2 have f: "status (pm ?w0) = StatusFailed" by (simp add: GetStatus_def)
    then have "status (pm ?w0) \<noteq> StatusRunning" by simp
    from idle_run [OF c this] a f show "GetStatus (run_events es ?w0) = StatusFailed"
      by (simp add: GetStatus_def)
  qed
  from 1 2 3 4 5 show ?thesis by blast
qed

theorem status_after_launch_is_never_not_started_witness:
  "every_file_exists ''/bin/true'' \<noteq> StatNotExist \<and>
   fst (main ''8080'' [''/bin/true''] every_file_exists (SpawnOk 7) None) =
     [CreateManager ''/bin/true'' [], InitialStart None, ListenAndServe '':8080''] \<and>
   GetStatus (snd (Start (SpawnOk 7) (new_world ''/bin/true'' []))) = StatusRunning \<and>
   GetStatus (run_events [ReaperRead 0, WaitReturns 0 (Exited 0),
       ChildWrite 0 StdoutStream ''x'' None]
     (snd (Start (SpawnErr ''exec format error'') (new_world ''/bin/true'' [])))) = StatusFailed"
proof -
  have h: "every_file_exists ''/bin/true'' \<noteq> StatNotExist" by (simp add: every_file_exists_def)
  have s: "fst (Start (SpawnOk 7) (new_world ''/bin/true'' [])) = None"
    by (simp add: eval_defs)
  have n: "\<forall>ev\<in>set [ReaperRead 0, WaitReturns 0 (Exited 0),
      ChildWrite 0 StdoutStream ''x'' None]. \<not> is_call ev"
    by simp
  from status_after_launch_is_never_not_started
    [where stat = every_file_exists and x = "''/bin/true''" and port = "''8080''"
       and xs = "[]" and sp = "SpawnErr ''exec format error''", OF h] n
  have f: "GetStatus (run_events [ReaperRead 0, WaitReturns 0 (Exited 0),
       ChildWrite 0 StdoutStream ''x'' None]
     (snd (Start (SpawnErr ''exec format error'') (new_world ''/bin/true'' [])))) = StatusFailed"
    by blast
  from h s f status_after_launch_is_never_not_started
    [where stat = every_file_exists and x = "''/bin/true''" and port = "''8080''"
       and xs = "[]" and sp = "SpawnOk 7", OF h]
  show ?thesis by simp
qed

subsection \<open>The handle and the goroutines\<close>

text \<open>
  C1, as the claim states it: the status is \<open>StatusRunning\<close> exactly when the handle is
  non-nil and refers to a process not yet reaped; the goroutine clears the handle when it
  commits, and no terminal state retains a handle. It fails: \<open>waitForProcess\<close> writes
  \<open>pm.status\<close> only, and nothing in the program sets \<open>pm.cmd\<close> back to nil. After a run
  that ended with exit code 0 the status is \<open>StatusSuccess\<close> and the handle is still the
  \<open>Cmd\<close> of that run; after a failed spawn the status is \<open>StatusFailed\<close> and the handle is
  the \<open>Cmd\<close> that could not be started.
\<close>

theorem handle_kept_after_run:
  "status (pm (run_events [CallStart (SpawnOk 7), ReaperRead 0, WaitReturns 0 (Exited 0),
      ReaperCommit 0] (new_world ''/bin/worker'' []))) = StatusSuccess \<and>
   cmd (pm (run_events [CallStart (SpawnOk 7), ReaperRead 0, WaitReturns 0 (Exited 0),
      ReaperCommit 0] (new_world ''/bin/worker'' []))) = Some 0 \<and>
   status (pm (run_events [CallStart (SpawnErr ''no such file'')] (new_world ''/bin/worker'' [])))
     = StatusFailed \<and>
   cmd (pm (run_events [CallStart (SpawnErr ''no such file'')] (new_world ''/bin/worker'' [])))
     = Some 0"
  by (simp add: eval_defs)

text \<open>
  C1, amended. In every reachable state the status is \<open>StatusRunning\<close> exactly when the
  handle is non-nil, refers to a started process, and the goroutine created for that
  handle has not committed yet. A handle whose process is started and for which \<open>Wait\<close>
  has not returned implies \<open>StatusRunning\<close> (between the return of \<open>Wait\<close> and the commit
  the status is still \<open>StatusRunning\<close>). The handle is nil exactly in \<open>StatusNotStarted\<close>,
  and the commit leaves the handle as it is, so every terminal state keeps the handle of
  the last run.
\<close>

theorem running_iff_reaper_pending:
  assumes "w = run_events es (new_world p as)"
  shows "(status (pm w) = StatusRunning \<longleftrightarrow>
       (\<exists>a c i. cmd (pm w) = Some a \<and> deref w a = Some c \<and> Process c \<noteq> None \<and>
          i < length (reapers w) \<and> spawnedFor (reapers w ! i) = Some a \<and>
          pc (reapers w ! i) \<noteq> Done)) \<and>
     (\<forall>a c. cmd (pm w) = Some a \<and> deref w a = Some c \<and> Process c \<noteq> None \<and>
        ProcessState c = None \<longrightarrow> status (pm w) = StatusRunning) \<and>
     (status (pm w) = StatusNotStarted \<longleftrightarrow> cmd (pm w) = None) \<and>
     (\<forall>i. cmd (pm (step w (ReaperCommit i))) = cmd (pm w))"
proof -
  have c: "consistent w" using assms by (simp add: consistent_reachable)
  have 1: "\<exists>a c i. cmd (pm w) = Some a \<and> deref w a = Some c \<and> Process c \<noteq> None \<and>
          i < length (reapers w) \<and> spawnedFor (reapers w ! i) = Some a \<and>
          pc (reapers w ! i) \<noteq> Done" if r: "status (pm w) = StatusRunning"
  proof -
    note rf = running_facts [OF c r]
    have d: "deref w (length (heap w) - Suc 0) = Some (last (heap w))"
      using rf by (simp add: deref_def nth_last)
    have l: "length (reapers w) - Suc 0 < length (reapers w)" using rf by simp
    from rf have "Process (last (heap w)) \<noteq> None"
      "spawnedFor (reapers w ! (length (reapers w) - Suc 0)) = Some (length (heap w) - Suc 0)"
      "pc (reapers w ! (length (reapers w) - Suc 0)) \<noteq> Done"
      by (simp_all add: in_step_def nth_last)
    with rf(2) d l show ?thesis by blast
  qed
  have 2: "status (pm w) = StatusRunning"
    if "i < length (reapers w)" "pc (reapers w ! i) \<noteq> Done" for i
    using live_last [OF c that] by simp
  have 3: "status (pm w) = StatusRunning"
    if "cmd (pm w) = Some a" "deref w a = Some c'" "Process c' \<noteq> None" "ProcessState c' = None"
    for a c'
  proof -
    from that have "a < length (heap w)" "\<not> quiet (heap w ! a)"
      by (auto simp: deref_def quiet_def split: if_splits)
    with noisy_last [OF c] show ?thesis by blast
  qed
  have 4: "status (pm w) = StatusNotStarted \<longleftrightarrow> cmd (pm w) = None"
    using c by (auto simp: consistent_def)
  have 5: "\<forall>i. cmd (pm (step w (ReaperCommit i))) = cmd (pm w)"
    by (simp add: commit_frame)
  from 1 2 3 4 5 show ?thesis by blast
qed

theorem running_iff_reaper_pending_witness:
  "cmd (pm (run_events [CallStart (SpawnOk 7), ReaperRead 0, WaitReturns 0 (Exited 0)]
      (new_world ''/bin/worker'' []))) = Some 0 \<and>
   pc (reapers (run_events [CallStart (SpawnOk 7), ReaperRead 0, WaitReturns 0 (Exited 0)]
      (new_world ''/bin/worker'' [])) ! 0) = Returned None \<and>
   status (pm (run_events [CallStart (SpawnOk 7), ReaperRead 0, WaitReturns 0 (Exited 0)]
      (new_world ''/bin/worker'' []))) = StatusRunning \<and>
   cmd (pm (step (run_events [CallStart (SpawnOk 7), ReaperRead 0, WaitReturns 0 (Exited 0)]
      (new_world ''/bin/worker'' [])) (ReaperCommit 0))) = Some 0"
proof -
  let ?w = "run_events [CallStart (SpawnOk 7), ReaperRead 0, WaitReturns 0 (Exited 0)]
      (new_world ''/bin/worker'' [])"
  let ?c = "\<lparr>Path = ''/bin/worker'', Args = [''/bin/worker''], Stdout = multiWriter,
             Stderr = multiWriter, Process = Some 7, ProcessState = Some (Exited 0),
             copying = True\<rparr>"
  have f: "cmd (pm ?w) = Some 0" "deref ?w 0 = Some ?c" "Process ?c \<noteq> None"
    "0 < length (reapers ?w)" "spawnedFor (reapers ?w ! 0) = Some 0"
    "pc (reapers ?w ! 0) = Returned None"
    by (simp_all add: eval_defs)
  then have "\<exists>a c i. cmd (pm ?w) = Some a \<and> deref ?w a = Some c \<and> Process c \<noteq> None \<and>
          i < length (reapers ?w) \<and> spawnedFor (reapers ?w ! i) = Some a \<and>
          pc (reapers ?w ! i) \<noteq> Done"
    by (intro exI [of _ 0] exI [of _ ?c]) simp
  with running_iff_reaper_pending [OF refl, of "[CallStart (SpawnOk 7), ReaperRead 0,
      WaitReturns 0 (Exited 0)]" "''/bin/worker''" "[]"]
  have "status (pm ?w) = StatusRunning" "cmd (pm (step ?w (ReaperCommit 0))) = cmd (pm ?w)"
    by blast+
  with f show ?thesis by simp
qed



subsection \<open>The log\<close>




end
